theory Spec2Isabelle
  imports Main "HOL-Library.Sublist"
begin

section \<open>Strings and the library methods the parser calls\<close>

text \<open>
  A JavaScript string is a sequence of code units; it is modelled as \<open>string\<close>. The
  methods used by the source (\<open>startsWith\<close>, \<open>slice\<close>, \<open>indexOf\<close>, \<open>join\<close>) work
  unit by unit, so their behaviour does not depend on the width of a unit.
\<close>

text \<open>\<open>s.startsWith(p)\<close>: the first \<open>p.length\<close> units of \<open>s\<close> are \<open>p\<close>.\<close>

definition startsWith :: "string \<Rightarrow> string \<Rightarrow> bool" where
  "startsWith s p = (take (length p) s = p)"

text \<open>
  \<open>s.indexOf(c)\<close> for a one-unit search string: the index of the first occurrence,
  or \<open>-1\<close> when there is none.
\<close>

fun indexOf :: "string \<Rightarrow> char \<Rightarrow> int" where
  "indexOf [] c = - 1"
| "indexOf (x # xs) c =
     (if x = c then 0
      else (let i = indexOf xs c in if i < 0 then - 1 else i + 1))"

text \<open>
  \<open>s.slice(start)\<close> and \<open>s.slice(start, end)\<close>: a negative index counts from the end,
  and both indices are clamped to the length of the string.
\<close>

definition clampIndex :: "string \<Rightarrow> int \<Rightarrow> int" where
  "clampIndex s i =
     (let len = int (length s) in if i < 0 then max (len + i) 0 else min i len)"

definition slice_from :: "string \<Rightarrow> int \<Rightarrow> string" where
  "slice_from s start = drop (nat (clampIndex s start)) s"

definition slice :: "string \<Rightarrow> int \<Rightarrow> int \<Rightarrow> string" where
  "slice s start fin =
     (let from = clampIndex s start; to = clampIndex s fin
      in take (nat (to - from)) (drop (nat from) s))"

text \<open>\<open>xs.join(sep)\<close> on an array of strings.\<close>

fun join :: "string \<Rightarrow> string list \<Rightarrow> string" where
  "join sep [] = []"
| "join sep [x] = x"
| "join sep (x # y # ys) = x @ sep @ join sep (y # ys)"

text \<open>
  A property that may be missing or \<open>null\<close>, and the operator \<open>a ?? b\<close>, which
  takes \<open>b\<close> in both of these cases.
\<close>

datatype 'a nullish = Undefined | Null | Defined 'a

fun coalesce :: "'a nullish \<Rightarrow> 'a \<Rightarrow> 'a" where
  "coalesce (Defined v) d = v"
| "coalesce Undefined d = d"
| "coalesce Null d = d"

section \<open>task-parser: the data model\<close>

text \<open>
  \<open>MiseTask\<close> is the raw object of \<open>mise tasks ls --all --json\<close>. The parser reads its
  \<open>name\<close> and its \<open>sources\<close> only (\<open>mt_sources\<close> here, since \<open>ParsedTask\<close> has a
  field \<open>sources\<close> too); the fields \<open>source\<close>, \<open>description\<close>, \<open>outputs\<close> and
  \<open>depends\<close> are never read.
\<close>

record MiseTask =
  name :: string
  mt_sources :: "string list nullish"

record ParsedTask =
  project :: string
  task :: string
  localName :: string
  sources :: "string list"

record ProjectGroup =
  g_project :: string
  g_tasks :: string

section \<open>parseMiseTasks\<close>

text \<open>The body of the arrow function that \<open>parseMiseTasks\<close> maps over the raw array.\<close>

definition parseMiseTask :: "MiseTask \<Rightarrow> ParsedTask" where
  "parseMiseTask t =
     (let nm = name t;
          (proj, loc) =
            (if startsWith nm ''//'' then
               (let withoutPrefix = slice_from nm 2;
                    colonIdx = indexOf withoutPrefix CHR '':'';
                    (p, l) =
                      (if colonIdx \<ge> 0
                       then (slice withoutPrefix 0 colonIdx, slice_from withoutPrefix (colonIdx + 1))
                       else (withoutPrefix, ''''))
                in (if p = '''' then ''.'' else p, l))
             else (''.'', nm))
      in \<lparr>project = proj, task = nm, localName = loc,
          sources = coalesce (mt_sources t) []\<rparr>)"

definition parseMiseTasks :: "MiseTask list \<Rightarrow> ParsedTask list" where
  "parseMiseTasks raw = map parseMiseTask raw"

section \<open>filterByPrefix\<close>

definition filterByPrefix :: "ParsedTask list \<Rightarrow> string \<Rightarrow> ParsedTask list" where
  "filterByPrefix tasks pfx =
     (if pfx = '''' then tasks else filter (\<lambda>t. startsWith (localName t) pfx) tasks)"

section \<open>groupByProject\<close>

text \<open>
  The \<open>Map\<close> of the source iterates in insertion order, so it is an association list:
  \<open>map_get\<close> is \<open>Map.get\<close> (\<open>None\<close> for \<open>undefined\<close>), and \<open>map_set\<close> is \<open>Map.set\<close>,
  which overwrites the value of a present key where it stands and appends a new key.
\<close>

fun map_get :: "('k \<times> 'v) list \<Rightarrow> 'k \<Rightarrow> 'v option" where
  "map_get [] k = None"
| "map_get ((k', v) # m) k = (if k' = k then Some v else map_get m k)"

fun map_set :: "('k \<times> 'v) list \<Rightarrow> 'k \<Rightarrow> 'v \<Rightarrow> ('k \<times> 'v) list" where
  "map_set [] k v = [(k, v)]"
| "map_set ((k', v') # m) k v = (if k' = k then (k, v) # m else (k', v') # map_set m k v)"

text \<open>
  The body of the first loop. An array is truthy, so \<open>if (existing)\<close> asks whether the
  key is present; \<open>existing.push\<close> changes the array held by the map, which leaves the
  key where it is.
\<close>

definition groupStep :: "(string \<times> string list) list \<Rightarrow> ParsedTask \<Rightarrow> (string \<times> string list) list" where
  "groupStep m t =
     (case map_get m (project t) of
        Some existing \<Rightarrow> map_set m (project t) (existing @ [task t])
      | None \<Rightarrow> map_set m (project t) [task t])"

definition groupByProject :: "ParsedTask list \<Rightarrow> ProjectGroup list" where
  "groupByProject tasks =
     (let m = foldl groupStep [] tasks
      in map (\<lambda>(proj, taskList). \<lparr>g_project = proj, g_tasks = join '' ::: '' taskList\<rparr>) m)"

section \<open>change-detector: filterByChangedSources\<close>

text \<open>
  \<open>exec.exec\<close> of the actions toolkit is outside the repository: it is a parameter, a
  function of the state of the outside world that either resolves to an exit code or
  throws. The calls to \<open>core.info\<close>, \<open>core.warning\<close> and \<open>exec.exec\<close> are recorded,
  in order, in \<open>events\<close>.
\<close>

datatype exec_result = ExitCode int | Thrown

record ExecOptions =
  ignoreReturnCode :: bool
  silent :: bool

datatype event = Info string | Warning string | Exec string "string list" ExecOptions

type_synonym 'w exec = "'w \<Rightarrow> string \<Rightarrow> string list \<Rightarrow> ExecOptions \<Rightarrow> exec_result \<times> 'w"

record 'w run =
  result :: "ParsedTask list"
  events :: "event list"
  world :: 'w

fun isExec :: "event \<Rightarrow> bool" where
  "isExec (Exec c a opts) = True"
| "isExec (Info s) = False"
| "isExec (Warning s) = False"

definition pathspecs :: "ParsedTask \<Rightarrow> string list" where
  "pathspecs t =
     map (\<lambda>glob. if project t = ''.'' then '':(glob)'' @ glob
                 else '':(glob)'' @ project t @ ''/'' @ glob) (sources t)"

definition diffArgs :: "string \<Rightarrow> ParsedTask \<Rightarrow> string list" where
  "diffArgs baseRef t = [''diff'', ''--quiet'', baseRef, ''HEAD'', ''--''] @ pathspecs t"

definition diffOptions :: ExecOptions where
  "diffOptions = \<lparr>ignoreReturnCode = True, silent = True\<rparr>"

text \<open>The body of the loop over the tasks.\<close>

definition filterStep :: "'w exec \<Rightarrow> string \<Rightarrow> 'w run \<Rightarrow> ParsedTask \<Rightarrow> 'w run" where
  "filterStep exec baseRef st t =
     (if length (sources t) = 0 then
        st\<lparr>result := result st @ [t],
           events := events st @ [Info (''  '' @ task t @ '': no sources, included'')]\<rparr>
      else
        (let args = diffArgs baseRef t;
             (r, w') = exec (world st) ''git'' args diffOptions;
             called = events st @ [Exec ''git'' args diffOptions]
         in case r of
              ExitCode exitCode \<Rightarrow>
                (if exitCode = 0 then
                   st\<lparr>events := called @ [Info (''  '' @ task t @ '': unchanged, skipped'')],
                      world := w'\<rparr>
                 else
                   st\<lparr>result := result st @ [t],
                      events := called @ [Info (''  '' @ task t @ '': changed, included'')],
                      world := w'\<rparr>)
            | Thrown \<Rightarrow>
                st\<lparr>result := result st @ [t],
                   events := called @
                     [Warning (''  '' @ task t @ '': git diff failed, included (fail-open)'')],
                   world := w'\<rparr>))"

definition filterByChangedSources :: "'w exec \<Rightarrow> ParsedTask list \<Rightarrow> string \<Rightarrow> 'w \<Rightarrow> 'w run" where
  "filterByChangedSources exec tasks baseRef w =
     foldl (filterStep exec baseRef)
       \<lparr>result = [],
        events = [Info (''Filtering tasks by changes since '' @ baseRef @ ''...'')],
        world = w\<rparr> tasks"

text \<open>
  A query provider for concrete runs: the outside world is the list of the outcomes still
  to come, one taken by each call; a call beyond the list throws.
\<close>

fun scripted :: "exec_result list exec" where
  "scripted [] c a opts = (Thrown, [])"
| "scripted (r # rs) c a opts = (r, rs)"

text \<open>
  A query provider that records what it receives: the outside world is the list of the
  calls made so far (command, arguments and options), each call is appended to it, and the
  answers are taken in order from a script; a call beyond the script throws.
\<close>

type_synonym call = "string \<times> string list \<times> ExecOptions"

definition recorder :: "exec_result list \<Rightarrow> call list exec" where
  "recorder script calls c a opts =
     (if length calls < length script then script ! length calls else Thrown,
      calls @ [(c, a, opts)])"

section \<open>Notions of the specification\<close>

text \<open>The distinct elements of a list, in the order of their first appearance.\<close>

fun firstSeen :: "'a list \<Rightarrow> 'a list" where
  "firstSeen [] = []"
| "firstSeen (x # xs) = x # firstSeen (filter (\<lambda>y. y \<noteq> x) xs)"



text \<open>The qualified names of the tasks of one project, in the order of the input.\<close>

definition tasksOf :: "string \<Rightarrow> ParsedTask list \<Rightarrow> string list" where
  "tasksOf p tasks = map task (filter (\<lambda>t. project t = p) tasks)"

section \<open>Facts about the string methods\<close>

lemma startsWith_prefix: "startsWith s p = prefix p s"
  unfolding startsWith_def
  by (metis append_eq_conv_conj prefix_def)

lemma startsWith_append [simp]: "startsWith (p @ s) p"
  by (simp add: startsWith_def)

lemma indexOf_ge: "- 1 \<le> indexOf s c"
  by (induction s) (auto simp: Let_def)

lemma indexOf_absent: "c \<notin> set s \<Longrightarrow> indexOf s c = - 1"
  by (induction s) (auto simp: Let_def)

lemma indexOf_first: "c \<notin> set p \<Longrightarrow> indexOf (p @ c # r) c = int (length p)"
  by (induction p) (auto simp: Let_def)

lemma indexOf_present: "c \<in> set s \<Longrightarrow> indexOf s c = int (length (takeWhile (\<lambda>x. x \<noteq> c) s))"
  by (induction s) (auto simp: Let_def)

lemma slice_from_nonneg: "0 \<le> i \<Longrightarrow> slice_from s i = drop (nat i) s"
  by (auto simp: slice_from_def clampIndex_def Let_def min_def)

lemma slice_prefix: "0 \<le> i \<Longrightarrow> slice s 0 i = take (nat i) s"
  by (auto simp: slice_def clampIndex_def Let_def min_def)

lemma slice_from_marker [simp]: "slice_from (''//'' @ r) 2 = r"
  by (simp add: slice_from_nonneg)




section \<open>The three forms of a name\<close>

text \<open>
  What \<open>parseMiseTask\<close> returns on a name with the marker and a colon after it, on a
  name with the marker and no colon, and on a name without the marker.
\<close>

lemma parse_marker_colon:
  assumes "name r = ''//'' @ p @ CHR '':'' # l" and "CHR '':'' \<notin> set p"
  shows "parseMiseTask r =
         \<lparr>project = (if p = '''' then ''.'' else p), task = name r,
          localName = l, sources = coalesce (mt_sources r) []\<rparr>"
proof -
  have i: "indexOf (p @ CHR '':'' # l) CHR '':'' = int (length p)"
    using assms(2) by (rule indexOf_first)
  have m: "startsWith (''//'' @ p @ CHR '':'' # l) ''//''"
    by (rule startsWith_append)
  have s: "slice_from (''//'' @ p @ CHR '':'' # l) 2 = p @ CHR '':'' # l"
    by (rule slice_from_marker)
  have n: "nat (int (length p) + 1) = Suc (length p)"
    by simp
  show ?thesis
    unfolding parseMiseTask_def Let_def assms(1)
    by (simp only: m s i if_True split_conv)
       (simp add: slice_prefix slice_from_nonneg n del: of_nat_Suc)
qed

lemma parse_marker_no_colon:
  assumes "name r = ''//'' @ d" and "CHR '':'' \<notin> set d"
  shows "parseMiseTask r =
         \<lparr>project = (if d = '''' then ''.'' else d), task = name r,
          localName = '''', sources = coalesce (mt_sources r) []\<rparr>"
proof -
  have i: "indexOf d CHR '':'' = - 1"
    using assms(2) by (rule indexOf_absent)
  have m: "startsWith (''//'' @ d) ''//''"
    by (rule startsWith_append)
  have s: "slice_from (''//'' @ d) 2 = d"
    by (rule slice_from_marker)
  show ?thesis
    unfolding parseMiseTask_def Let_def assms(1)
    by (simp only: m s i if_True split_conv) simp
qed

lemma parse_no_marker:
  assumes "\<not> startsWith (name r) ''//''"
  shows "parseMiseTask r =
         \<lparr>project = ''.'', task = name r, localName = name r,
          sources = coalesce (mt_sources r) []\<rparr>"
  using assms by (simp add: parseMiseTask_def Let_def)

lemma parseMiseTasks_at:
  "parseMiseTasks (pre @ r # post) = parseMiseTasks pre @ parseMiseTask r # parseMiseTasks post"
  by (simp add: parseMiseTasks_def)



section \<open>Claims about parseMiseTasks\<close>







text \<open>
  C8. A raw task named \<open>//:\<close> followed by any rest has the project \<open>.\<close> and that rest as
  its local name; a raw task whose name does not start with \<open>//\<close> has the project \<open>.\<close>
  and its whole name as its local name. Both hold at any place of the input.
\<close>

theorem parseMiseTasks_root_forms:
  "parseMiseTasks (pre @ \<lparr>name = ''//:'' @ rest, mt_sources = src\<rparr> # post) =
     parseMiseTasks pre @
     \<lparr>project = ''.'', task = ''//:'' @ rest, localName = rest, sources = coalesce src []\<rparr> #
     parseMiseTasks post
   \<and> (\<not> startsWith nm ''//'' \<longrightarrow>
      parseMiseTasks (pre @ \<lparr>name = nm, mt_sources = src\<rparr> # post) =
        parseMiseTasks pre @
        \<lparr>project = ''.'', task = nm, localName = nm, sources = coalesce src []\<rparr> #
        parseMiseTasks post)"
  using parse_marker_colon [of "\<lparr>name = ''//:'' @ rest, mt_sources = src\<rparr>" "[]" rest]
    parse_no_marker [of "\<lparr>name = nm, mt_sources = src\<rparr>"]
  by (simp add: parseMiseTasks_at)

theorem parseMiseTasks_root_forms_witness:
  "parseMiseTasks [\<lparr>name = ''//:ci:build'', mt_sources = Undefined\<rparr>] =
     [\<lparr>project = ''.'', task = ''//:ci:build'', localName = ''ci:build'', sources = []\<rparr>]
   \<and> \<not> startsWith ''ci:test'' ''//''
   \<and> parseMiseTasks [\<lparr>name = ''ci:test'', mt_sources = Undefined\<rparr>] =
     [\<lparr>project = ''.'', task = ''ci:test'', localName = ''ci:test'', sources = []\<rparr>]"
  using parseMiseTasks_root_forms [of "[]" "''ci:build''" Undefined "[]" "''ci:test''"]
  by (simp add: parseMiseTasks_def startsWith_def)

text \<open>
  C9. \<open>parseMiseTasks\<close> returns one output for each input, in the order of the input (the
  names of the outputs are the names of the inputs, and parsing distributes over
  concatenation); the empty list gives the empty list; and the sources of an output are
  the list of the raw task when it has one, and the empty list when the property is
  missing or \<open>null\<close>.
\<close>

theorem parseMiseTasks_total:
  "length (parseMiseTasks raw) = length raw
   \<and> map task (parseMiseTasks raw) = map name raw
   \<and> parseMiseTasks (xs @ ys) = parseMiseTasks xs @ parseMiseTasks ys
   \<and> parseMiseTasks [] = []
   \<and> (\<forall>i < length raw. sources (parseMiseTasks raw ! i) =
         (case mt_sources (raw ! i) of Defined v \<Rightarrow> v | Undefined \<Rightarrow> [] | Null \<Rightarrow> []))"
proof -
  have t: "task (parseMiseTask r) = name r" for r
    by (simp add: parseMiseTask_def Let_def split: prod.splits)
  have s: "sources (parseMiseTask r) =
      (case mt_sources r of Defined v \<Rightarrow> v | Undefined \<Rightarrow> [] | Null \<Rightarrow> [])" for r
    by (cases "mt_sources r") (simp_all add: parseMiseTask_def Let_def split: prod.splits)
  show ?thesis
    by (simp add: parseMiseTasks_def t s)
qed

theorem parseMiseTasks_total_witness:
  "length (parseMiseTasks [\<lparr>name = ''ci:build'', mt_sources = Null\<rparr>,
                           \<lparr>name = ''//a:ci:test'', mt_sources = Undefined\<rparr>]) = 2
   \<and> (1::nat) < length [\<lparr>name = ''ci:build'', mt_sources = Null\<rparr>,
                        \<lparr>name = ''//a:ci:test'', mt_sources = Undefined\<rparr>]
   \<and> sources (parseMiseTasks [\<lparr>name = ''ci:build'', mt_sources = Null\<rparr>,
                              \<lparr>name = ''//a:ci:test'', mt_sources = Undefined\<rparr>] ! 1) = []"
proof -
  let ?raw = "[\<lparr>name = ''ci:build'', mt_sources = Null\<rparr>,
               \<lparr>name = ''//a:ci:test'', mt_sources = Undefined\<rparr>]"
  note t = parseMiseTasks_total [of ?raw "[]" "[]"]
  from t have l: "length (parseMiseTasks ?raw) = length ?raw"
    by (rule conjunct1)
  from t have "\<forall>i < length ?raw. sources (parseMiseTasks ?raw ! i) =
         (case mt_sources (?raw ! i) of Defined v \<Rightarrow> v | Undefined \<Rightarrow> [] | Null \<Rightarrow> [])"
    by (elim conjE)
  then have "(1::nat) < length ?raw \<longrightarrow> sources (parseMiseTasks ?raw ! 1) =
         (case mt_sources (?raw ! 1) of Defined v \<Rightarrow> v | Undefined \<Rightarrow> [] | Null \<Rightarrow> [])"
    by (rule spec)
  with l show ?thesis
    by simp
qed

text \<open>
  C10. The raw task named exactly \<open>//\<close> has the project \<open>.\<close> and the empty local name,
  and no output of \<open>parseMiseTasks\<close> has the empty string as its project.
\<close>

theorem parseMiseTasks_project_nonempty:
  "parseMiseTasks (pre @ \<lparr>name = ''//'', mt_sources = src\<rparr> # post) =
     parseMiseTasks pre @
     \<lparr>project = ''.'', task = ''//'', localName = '''', sources = coalesce src []\<rparr> #
     parseMiseTasks post
   \<and> (\<forall>t \<in> set (parseMiseTasks raw). project t \<noteq> '''')"
proof
  show "parseMiseTasks (pre @ \<lparr>name = ''//'', mt_sources = src\<rparr> # post) =
     parseMiseTasks pre @
     \<lparr>project = ''.'', task = ''//'', localName = '''', sources = coalesce src []\<rparr> #
     parseMiseTasks post"
    using parse_marker_no_colon [of "\<lparr>name = ''//'', mt_sources = src\<rparr>" "[]"]
    by (simp add: parseMiseTasks_at)
next
  have "project (parseMiseTask r) \<noteq> ''''" for r
    by (simp add: parseMiseTask_def Let_def split: prod.splits)
  then show "\<forall>t \<in> set (parseMiseTasks raw). project t \<noteq> ''''"
    by (auto simp: parseMiseTasks_def)
qed

theorem parseMiseTasks_project_nonempty_witness:
  "parseMiseTasks [\<lparr>name = ''//'', mt_sources = Undefined\<rparr>] =
     [\<lparr>project = ''.'', task = ''//'', localName = '''', sources = []\<rparr>]
   \<and> parseMiseTask \<lparr>name = ''//'', mt_sources = Undefined\<rparr>
       \<in> set (parseMiseTasks [\<lparr>name = ''//'', mt_sources = Undefined\<rparr>])
   \<and> project (parseMiseTask \<lparr>name = ''//'', mt_sources = Undefined\<rparr>) \<noteq> ''''"
  using parseMiseTasks_project_nonempty
    [of "[]" Undefined "[]" "[\<lparr>name = ''//'', mt_sources = Undefined\<rparr>]"]
  by (simp add: parseMiseTasks_def)

section \<open>Claims about filterByPrefix\<close>

text \<open>
  C6. With the empty prefix \<open>filterByPrefix\<close> returns its input; with any prefix it keeps,
  in the order of the input, exactly the tasks of whose local name the prefix is a
  literal prefix (\<open>prefix\<close> compares unit by unit).
\<close>

theorem filterByPrefix_literal:
  "filterByPrefix tasks '''' = tasks
   \<and> filterByPrefix tasks pfx = filter (\<lambda>t. prefix pfx (localName t)) tasks"
  by (simp add: filterByPrefix_def startsWith_prefix)

theorem filterByPrefix_literal_witness:
  "filterByPrefix
     [\<lparr>project = ''.'', task = ''ci:build'', localName = ''ci:build'', sources = []\<rparr>,
      \<lparr>project = ''.'', task = ''CI:build'', localName = ''CI:build'', sources = []\<rparr>,
      \<lparr>project = ''.'', task = ''ci:test'', localName = ''ci:test'', sources = []\<rparr>,
      \<lparr>project = ''a'', task = ''//a:ci:build:docker'', localName = ''ci:build:docker'', sources = []\<rparr>]
     ''ci:build'' =
   [\<lparr>project = ''.'', task = ''ci:build'', localName = ''ci:build'', sources = []\<rparr>,
    \<lparr>project = ''a'', task = ''//a:ci:build:docker'', localName = ''ci:build:docker'', sources = []\<rparr>]"
  using filterByPrefix_literal
    [of "[\<lparr>project = ''.'', task = ''ci:build'', localName = ''ci:build'', sources = []\<rparr>,
          \<lparr>project = ''.'', task = ''CI:build'', localName = ''CI:build'', sources = []\<rparr>,
          \<lparr>project = ''.'', task = ''ci:test'', localName = ''ci:test'', sources = []\<rparr>,
          \<lparr>project = ''a'', task = ''//a:ci:build:docker'', localName = ''ci:build:docker'', sources = []\<rparr>]"
        "''ci:build''"]
  by simp

section \<open>Facts about groupByProject\<close>

lemma set_firstSeen: "set (firstSeen xs) = set xs"
  by (induction xs rule: firstSeen.induct) auto

lemma distinct_firstSeen: "distinct (firstSeen xs)"
  by (induction xs rule: firstSeen.induct) (auto simp: set_firstSeen)

lemma tasksOf_Cons:
  "tasksOf k (t # ts) = (if project t = k then task t # tasksOf k ts else tasksOf k ts)"
  by (simp add: tasksOf_def)

lemma map_get_None: "(map_get m k = None) = (k \<notin> fst ` set m)"
  by (induction m) (auto split: if_splits)

lemma in_keys: "(k, v) \<in> set m \<Longrightarrow> k \<in> fst ` set m"
  by force

lemma groupStep_new:
  "project t \<notin> fst ` set m \<Longrightarrow> groupStep m t = m @ [(project t, [task t])]"
proof (induction m)
  case Nil
  show ?case by (simp add: groupStep_def)
next
  case (Cons e m)
  then have "groupStep m t = m @ [(project t, [task t])]" by simp
  moreover have "map_get m (project t) = None"
    using Cons.prems by (simp add: map_get_None)
  moreover have "fst e \<noteq> project t"
    using Cons.prems by auto
  ultimately show ?case
    by (cases e) (simp add: groupStep_def)
qed

lemma groupStep_old:
  "distinct (map fst m) \<Longrightarrow> project t \<in> fst ` set m \<Longrightarrow>
   groupStep m t = map (\<lambda>(k, v). (k, if k = project t then v @ [task t] else v)) m"
proof (induction m)
  case Nil
  then show ?case by simp
next
  case (Cons e m)
  obtain k v where e: "e = (k, v)" by (cases e)
  show ?case
  proof (cases "k = project t")
    case True
    then have "project t \<notin> fst ` set m"
      using Cons.prems(1) e by auto
    then have "map (\<lambda>(k, v). (k, if k = project t then v @ [task t] else v)) m = m"
      by (intro map_idI) (auto simp: rev_image_eqI)
    then show ?thesis
      using True e by (simp add: groupStep_def)
  next
    case False
    then have "project t \<in> fst ` set m" and "distinct (map fst m)"
      using Cons.prems e by auto
    then have "groupStep m t = map (\<lambda>(k, v). (k, if k = project t then v @ [task t] else v)) m"
      using Cons.IH by simp
    then show ?thesis
      using False e by (simp add: groupStep_def split: option.splits)
  qed
qed

lemma group_loop:
  "distinct (map fst m) \<Longrightarrow>
   foldl groupStep m ts =
     map (\<lambda>(k, v). (k, v @ tasksOf k ts)) m @
     map (\<lambda>k. (k, tasksOf k ts)) (firstSeen (filter (\<lambda>k. k \<notin> fst ` set m) (map project ts)))"
proof (induction ts arbitrary: m)
  case Nil
  show ?case by (simp add: tasksOf_def)
next
  case (Cons t ts)
  show ?case
  proof (cases "project t \<in> fst ` set m")
    case True
    let ?m' = "map (\<lambda>(k, v). (k, if k = project t then v @ [task t] else v)) m"
    have step: "groupStep m t = ?m'"
      using Cons.prems True by (rule groupStep_old)
    have keys: "map fst ?m' = map fst m"
      by (induction m) auto
    then have keys': "fst ` set ?m' = fst ` set m"
      by (metis list.set_map)
    have d: "distinct (map fst ?m')"
      by (simp only: keys Cons.prems)
    have old: "map (\<lambda>(k, v). (k, v @ tasksOf k ts)) ?m' =
               map (\<lambda>(k, v). (k, v @ tasksOf k (t # ts))) m"
      by (induction m) (auto simp: tasksOf_Cons)
    have new: "map (\<lambda>k. (k, tasksOf k ts)) (firstSeen (filter (\<lambda>k. k \<notin> fst ` set m) (map project ts))) =
               map (\<lambda>k. (k, tasksOf k (t # ts))) (firstSeen (filter (\<lambda>k. k \<notin> fst ` set m) (map project ts)))"
      using True by (intro map_cong refl) (auto simp: set_firstSeen tasksOf_Cons dest: in_keys)
    have "foldl groupStep m (t # ts) = foldl groupStep ?m' ts"
      using step by simp
    also have "\<dots> = map (\<lambda>(k, v). (k, v @ tasksOf k ts)) ?m' @
       map (\<lambda>k. (k, tasksOf k ts)) (firstSeen (filter (\<lambda>k. k \<notin> fst ` set ?m') (map project ts)))"
      using d by (rule Cons.IH)
    finally show ?thesis
      using True by (simp only: keys' old new) simp
  next
    case False
    let ?m' = "m @ [(project t, [task t])]"
    have step: "groupStep m t = ?m'"
      using False by (rule groupStep_new)
    have d: "distinct (map fst ?m')"
      using Cons.prems False by auto
    have old: "map (\<lambda>(k, v). (k, v @ tasksOf k ts)) m =
               map (\<lambda>(k, v). (k, v @ tasksOf k (t # ts))) m"
      using False by (intro map_cong refl) (auto simp: tasksOf_Cons dest: in_keys)
    have f: "filter (\<lambda>k. k \<notin> fst ` set ?m') (map project ts) =
             filter (\<lambda>k. k \<noteq> project t) (filter (\<lambda>k. k \<notin> fst ` set m) (map project ts))"
      by (auto intro: filter_cong)
    have new: "map (\<lambda>k. (k, tasksOf k ts))
                 (firstSeen (filter (\<lambda>k. k \<noteq> project t) (filter (\<lambda>k. k \<notin> fst ` set m) (map project ts)))) =
               map (\<lambda>k. (k, tasksOf k (t # ts)))
                 (firstSeen (filter (\<lambda>k. k \<noteq> project t) (filter (\<lambda>k. k \<notin> fst ` set m) (map project ts))))"
      by (intro map_cong refl) (auto simp: set_firstSeen tasksOf_Cons)
    let ?rest = "firstSeen (filter (\<lambda>k. k \<noteq> project t)
                   (filter (\<lambda>k. k \<notin> fst ` set m) (map project ts)))"
    have "foldl groupStep m (t # ts) = foldl groupStep ?m' ts"
      using step by simp
    also have "\<dots> = map (\<lambda>(k, v). (k, v @ tasksOf k ts)) ?m' @
       map (\<lambda>k. (k, tasksOf k ts)) (firstSeen (filter (\<lambda>k. k \<notin> fst ` set ?m') (map project ts)))"
      using d by (rule Cons.IH)
    also have "\<dots> = map (\<lambda>(k, v). (k, v @ tasksOf k ts)) m @
       (project t, task t # tasksOf (project t) ts) # map (\<lambda>k. (k, tasksOf k ts)) ?rest"
      unfolding f by simp
    finally have lhs: "foldl groupStep m (t # ts) =
       map (\<lambda>(k, v). (k, v @ tasksOf k (t # ts))) m @
       (project t, task t # tasksOf (project t) ts) # map (\<lambda>k. (k, tasksOf k (t # ts))) ?rest"
      unfolding old new .
    have rhs: "map (\<lambda>k. (k, tasksOf k (t # ts)))
                 (firstSeen (filter (\<lambda>k. k \<notin> fst ` set m) (map project (t # ts)))) =
               (project t, task t # tasksOf (project t) ts) # map (\<lambda>k. (k, tasksOf k (t # ts))) ?rest"
      using False by (simp add: tasksOf_def)
    show ?thesis
      unfolding lhs rhs ..
  qed
qed

lemma group_keys:
  "map g_project (map (\<lambda>p. \<lparr>g_project = p, g_tasks = f p\<rparr>) ps) = ps"
  by (induction ps) auto

section \<open>Claims about groupByProject\<close>

text \<open>
  C5. \<open>groupByProject\<close> returns one group for each distinct project of its input, in the
  order in which the projects first appear; the tasks of a group are the \<open>task\<close> fields of
  the input tasks of that project, in input order, joined by \<open> ::: \<close>. The groups have
  distinct projects, which are exactly the projects of the input, and the empty input
  gives the empty output.
\<close>

theorem groupByProject_first_seen:
  "groupByProject tasks =
     map (\<lambda>p. \<lparr>g_project = p, g_tasks = join '' ::: '' (tasksOf p tasks)\<rparr>)
       (firstSeen (map project tasks))
   \<and> distinct (map g_project (groupByProject tasks))
   \<and> set (map g_project (groupByProject tasks)) = project ` set tasks
   \<and> groupByProject [] = []"
proof -
  have g: "groupByProject tasks =
     map (\<lambda>p. \<lparr>g_project = p, g_tasks = join '' ::: '' (tasksOf p tasks)\<rparr>)
       (firstSeen (map project tasks))"
    using group_loop [of "[]" tasks] by (simp add: groupByProject_def)
  have k: "map g_project (groupByProject tasks) = firstSeen (map project tasks)"
    unfolding g by (rule group_keys)
  have e: "groupByProject [] = []"
    by (simp add: groupByProject_def)
  have dk: "distinct (map g_project (groupByProject tasks))"
    unfolding k by (rule distinct_firstSeen)
  have sk: "set (map g_project (groupByProject tasks)) = project ` set tasks"
    unfolding k by (simp add: set_firstSeen)
  show ?thesis
    by (intro conjI g dk sk e)
qed

theorem groupByProject_first_seen_witness:
  "groupByProject
     [\<lparr>project = ''b'', task = ''b:ci:build'', localName = ''ci:build'', sources = []\<rparr>,
      \<lparr>project = ''a'', task = ''a:ci:build'', localName = ''ci:build'', sources = []\<rparr>,
      \<lparr>project = ''b'', task = ''b:ci:build:docker'', localName = ''ci:build:docker'', sources = []\<rparr>] =
   [\<lparr>g_project = ''b'', g_tasks = ''b:ci:build ::: b:ci:build:docker''\<rparr>,
    \<lparr>g_project = ''a'', g_tasks = ''a:ci:build''\<rparr>]"
  using groupByProject_first_seen
    [of "[\<lparr>project = ''b'', task = ''b:ci:build'', localName = ''ci:build'', sources = []\<rparr>,
          \<lparr>project = ''a'', task = ''a:ci:build'', localName = ''ci:build'', sources = []\<rparr>,
          \<lparr>project = ''b'', task = ''b:ci:build:docker'', localName = ''ci:build:docker'', sources = []\<rparr>]"]
  by (simp add: tasksOf_def)

section \<open>Facts about filterByChangedSources\<close>

lemma filter_snoc:
  "filterByChangedSources exec (ts @ [t]) b w = filterStep exec b (filterByChangedSources exec ts b w) t"
  by (simp add: filterByChangedSources_def)

lemma filterStep_no_sources:
  "sources t = [] \<Longrightarrow>
   filterStep exec b st t =
     st\<lparr>result := result st @ [t],
        events := events st @ [Info (''  '' @ task t @ '': no sources, included'')]\<rparr>"
  by (simp add: filterStep_def)

lemma filterStep_query:
  assumes "sources t \<noteq> []"
    and "exec (world st) ''git'' (diffArgs b t) diffOptions = (out, w')"
  shows "filterStep exec b st t =
     \<lparr>result = result st @ (if out = ExitCode 0 then [] else [t]),
      events = events st @
        [Exec ''git'' (diffArgs b t) diffOptions,
         (case out of
            ExitCode c \<Rightarrow> if c = 0 then Info (''  '' @ task t @ '': unchanged, skipped'')
                          else Info (''  '' @ task t @ '': changed, included'')
          | Thrown \<Rightarrow> Warning (''  '' @ task t @ '': git diff failed, included (fail-open)''))],
      world = w'\<rparr>"
  using assms by (cases out) (simp_all add: filterStep_def Let_def)

lemma filterStep_shape:
  "\<exists>dr de w'. \<forall>r e. filterStep exec b \<lparr>result = r, events = e, world = w\<rparr> t =
      \<lparr>result = r @ dr, events = e @ de, world = w'\<rparr>"
proof (cases "sources t = []")
  case True
  then show ?thesis
    by (simp add: filterStep_no_sources)
next
  case False
  obtain out w' where q: "exec w ''git'' (diffArgs b t) diffOptions = (out, w')"
    by (cases "exec w ''git'' (diffArgs b t) diffOptions")
  have "filterStep exec b \<lparr>result = r, events = e, world = w\<rparr> t =
     \<lparr>result = r @ (if out = ExitCode 0 then [] else [t]),
      events = e @
        [Exec ''git'' (diffArgs b t) diffOptions,
         (case out of
            ExitCode c \<Rightarrow> if c = 0 then Info (''  '' @ task t @ '': unchanged, skipped'')
                          else Info (''  '' @ task t @ '': changed, included'')
          | Thrown \<Rightarrow> Warning (''  '' @ task t @ '': git diff failed, included (fail-open)''))],
      world = w'\<rparr>" for r e
    using filterStep_query [OF False, of exec "\<lparr>result = r, events = e, world = w\<rparr>" b out w'] q
    by simp
  then show ?thesis
    by blast
qed

lemma filterLoop_shape:
  "\<exists>dr de w'. \<forall>r e. foldl (filterStep exec b) \<lparr>result = r, events = e, world = w\<rparr> ts =
      \<lparr>result = r @ dr, events = e @ de, world = w'\<rparr>"
proof (induction ts arbitrary: w)
  case Nil
  have "\<forall>r e. foldl (filterStep exec b) \<lparr>result = r, events = e, world = w\<rparr> [] =
      \<lparr>result = r @ [], events = e @ [], world = w\<rparr>"
    by simp
  then show ?case by blast
next
  case (Cons t ts)
  obtain dr1 de1 w1 where s: "\<And>r e. filterStep exec b \<lparr>result = r, events = e, world = w\<rparr> t =
      \<lparr>result = r @ dr1, events = e @ de1, world = w1\<rparr>"
    using filterStep_shape [of exec b w t] by blast
  obtain dr2 de2 w2 where l: "\<And>r e. foldl (filterStep exec b) \<lparr>result = r, events = e, world = w1\<rparr> ts =
      \<lparr>result = r @ dr2, events = e @ de2, world = w2\<rparr>"
    using Cons.IH [of w1] by blast
  have "\<forall>r e. foldl (filterStep exec b) \<lparr>result = r, events = e, world = w\<rparr> (t # ts) =
      \<lparr>result = r @ (dr1 @ dr2), events = e @ (de1 @ de2), world = w2\<rparr>"
    by (simp add: s l)
  then show ?case by blast
qed

lemma events_filterStep:
  "filter isExec (events (filterStep exec b st t)) =
   filter isExec (events st) @
     (if sources t = [] then [] else [Exec ''git'' (diffArgs b t) diffOptions])"
proof (cases "sources t = []")
  case True
  then show ?thesis by (simp add: filterStep_no_sources)
next
  case False
  obtain out w' where q: "exec (world st) ''git'' (diffArgs b t) diffOptions = (out, w')"
    by (cases "exec (world st) ''git'' (diffArgs b t) diffOptions")
  show ?thesis
    using False by (cases out) (simp_all add: filterStep_query [where exec = exec and st = st, OF False q])
qed

lemma exec_events:
  "filter isExec (events (filterByChangedSources exec tasks b w)) =
   map (\<lambda>t. Exec ''git'' (diffArgs b t) diffOptions) (filter (\<lambda>t. sources t \<noteq> []) tasks)"
proof (induction tasks rule: rev_induct)
  case Nil
  show ?case by (simp add: filterByChangedSources_def)
next
  case (snoc t ts)
  then show ?case
    by (simp add: filter_snoc events_filterStep)
qed

lemma result_filterStep:
  "filter (\<lambda>t. sources t = []) (result (filterStep exec b st t)) =
   filter (\<lambda>t. sources t = []) (result st) @ (if sources t = [] then [t] else [])"
proof (cases "sources t = []")
  case True
  then show ?thesis by (simp add: filterStep_no_sources)
next
  case False
  obtain out w' where q: "exec (world st) ''git'' (diffArgs b t) diffOptions = (out, w')"
    by (cases "exec (world st) ''git'' (diffArgs b t) diffOptions")
  show ?thesis
    using False by (simp add: filterStep_query [where exec = exec and st = st, OF False q])
qed

lemma kept_no_sources:
  "filter (\<lambda>t. sources t = []) (result (filterByChangedSources exec tasks b w)) =
   filter (\<lambda>t. sources t = []) tasks"
proof (induction tasks rule: rev_induct)
  case Nil
  show ?case by (simp add: filterByChangedSources_def)
next
  case (snoc t ts)
  then show ?case
    by (simp add: filter_snoc result_filterStep)
qed

lemma world_filterStep:
  "world (filterStep exec b st t) =
   (if sources t = [] then world st
    else snd (exec (world st) ''git'' (diffArgs b t) diffOptions))"
proof (cases "sources t = []")
  case True
  then show ?thesis by (simp add: filterStep_no_sources)
next
  case False
  obtain out w' where q: "exec (world st) ''git'' (diffArgs b t) diffOptions = (out, w')"
    by (cases "exec (world st) ''git'' (diffArgs b t) diffOptions")
  show ?thesis
    using False q by (simp add: filterStep_query [where exec = exec and st = st, OF False q])
qed

lemma world_calls:
  "world (filterByChangedSources exec tasks b w) =
   foldl (\<lambda>w t. snd (exec w ''git'' (diffArgs b t) diffOptions)) w
     (filter (\<lambda>t. sources t \<noteq> []) tasks)"
proof (induction tasks rule: rev_induct)
  case Nil
  show ?case by (simp add: filterByChangedSources_def)
next
  case (snoc t ts)
  then show ?case
    by (simp add: filter_snoc world_filterStep)
qed

lemma recorder_foldl:
  "foldl (\<lambda>w t. snd (recorder script w c (args t) opts)) calls ts =
   calls @ map (\<lambda>t. (c, args t, opts)) ts"
  by (induction ts arbitrary: calls) (simp_all add: recorder_def)

lemma recorder_calls:
  "world (filterByChangedSources (recorder script) tasks b calls) =
   calls @ map (\<lambda>t. (''git'', diffArgs b t, diffOptions)) (filter (\<lambda>t. sources t \<noteq> []) tasks)"
  unfolding world_calls by (rule recorder_foldl)

lemma diffArgs_expand:
  "diffArgs baseRef t = [''diff'', ''--quiet'', baseRef, ''HEAD'', ''--''] @
     map (\<lambda>glob. '':(glob)'' @ (if project t = ''.'' then glob else project t @ ''/'' @ glob))
       (sources t)"
  by (simp add: diffArgs_def pathspecs_def)

section \<open>Claims about filterByChangedSources\<close>

text \<open>
  C2. Let a task with sources stand anywhere in the input, and let the query issued for
  it, in the world left by the tasks before it, have the outcome \<open>out\<close> and leave the world
  \<open>w'\<close>. The tasks kept are those kept from the tasks before it, then the task itself
  unless \<open>out\<close> is the exit code 0 (so it is kept for any other exit code and when the
  query throws), then those kept from the tasks after it, run in \<open>w'\<close>. When the query
  throws, the warning for the task is among the events.
\<close>

theorem filterByChangedSources_fail_open:
  assumes "sources t \<noteq> []"
    and "exec (world (filterByChangedSources exec pre baseRef w)) ''git'' (diffArgs baseRef t)
           diffOptions = (out, w')"
  shows "result (filterByChangedSources exec (pre @ t # post) baseRef w) =
           result (filterByChangedSources exec pre baseRef w) @
           (if out = ExitCode 0 then [] else [t]) @
           result (filterByChangedSources exec post baseRef w')
       \<and> (out = Thrown \<longrightarrow>
            Warning (''  '' @ task t @ '': git diff failed, included (fail-open)'')
              \<in> set (events (filterByChangedSources exec (pre @ t # post) baseRef w)))"
proof -
  let ?S1 = "filterByChangedSources exec pre baseRef w"
  let ?S2 = "filterStep exec baseRef ?S1 t"
  obtain dr de w'' where l: "\<And>r e. foldl (filterStep exec baseRef) \<lparr>result = r, events = e, world = w'\<rparr> post =
      \<lparr>result = r @ dr, events = e @ de, world = w''\<rparr>"
    using filterLoop_shape [of exec baseRef w' post] by blast
  have s2: "?S2 = \<lparr>result = result ?S1 @ (if out = ExitCode 0 then [] else [t]),
      events = events ?S1 @
        [Exec ''git'' (diffArgs baseRef t) diffOptions,
         (case out of
            ExitCode c \<Rightarrow> if c = 0 then Info (''  '' @ task t @ '': unchanged, skipped'')
                          else Info (''  '' @ task t @ '': changed, included'')
          | Thrown \<Rightarrow> Warning (''  '' @ task t @ '': git diff failed, included (fail-open)''))],
      world = w'\<rparr>"
    using assms by (rule filterStep_query)
  have whole: "filterByChangedSources exec (pre @ t # post) baseRef w =
      foldl (filterStep exec baseRef) ?S2 post"
    by (simp add: filterByChangedSources_def)
  have post: "result (filterByChangedSources exec post baseRef w') = dr"
    by (simp add: filterByChangedSources_def l)
  show ?thesis
    unfolding whole s2 l post by simp
qed

theorem filterByChangedSources_fail_open_witness:
  "sources \<lparr>project = ''.'', task = ''ci:build'', localName = ''ci:build'', sources = [''src/**'']\<rparr> \<noteq> []
   \<and> scripted (world (filterByChangedSources scripted [] ''abc123'' [Thrown, ExitCode 0, ExitCode 128]))
       ''git''
       (diffArgs ''abc123''
          \<lparr>project = ''.'', task = ''ci:build'', localName = ''ci:build'', sources = [''src/**'']\<rparr>)
       diffOptions = (Thrown, [ExitCode 0, ExitCode 128])
   \<and> result (filterByChangedSources scripted
        [\<lparr>project = ''.'', task = ''ci:build'', localName = ''ci:build'', sources = [''src/**'']\<rparr>,
         \<lparr>project = ''.'', task = ''ci:test'', localName = ''ci:test'', sources = [''tests/**'']\<rparr>,
         \<lparr>project = ''.'', task = ''ci:lint'', localName = ''ci:lint'', sources = [''lint/**'']\<rparr>]
        ''abc123'' [Thrown, ExitCode 0, ExitCode 128]) =
     [\<lparr>project = ''.'', task = ''ci:build'', localName = ''ci:build'', sources = [''src/**'']\<rparr>,
      \<lparr>project = ''.'', task = ''ci:lint'', localName = ''ci:lint'', sources = [''lint/**'']\<rparr>]
   \<and> Warning ''  ci:build: git diff failed, included (fail-open)''
       \<in> set (events (filterByChangedSources scripted
        [\<lparr>project = ''.'', task = ''ci:build'', localName = ''ci:build'', sources = [''src/**'']\<rparr>,
         \<lparr>project = ''.'', task = ''ci:test'', localName = ''ci:test'', sources = [''tests/**'']\<rparr>,
         \<lparr>project = ''.'', task = ''ci:lint'', localName = ''ci:lint'', sources = [''lint/**'']\<rparr>]
        ''abc123'' [Thrown, ExitCode 0, ExitCode 128]))"
  using filterByChangedSources_fail_open
    [of "\<lparr>project = ''.'', task = ''ci:build'', localName = ''ci:build'', sources = [''src/**'']\<rparr>"
        scripted "[]" "''abc123''" "[Thrown, ExitCode 0, ExitCode 128]" Thrown "[ExitCode 0, ExitCode 128]"
        "[\<lparr>project = ''.'', task = ''ci:test'', localName = ''ci:test'', sources = [''tests/**'']\<rparr>,
          \<lparr>project = ''.'', task = ''ci:lint'', localName = ''ci:lint'', sources = [''lint/**'']\<rparr>]"]
  by (simp add: filterByChangedSources_def filterStep_def Let_def)

text \<open>
  C3, as the code has it. Whatever the provider is, it is called once for each task with
  sources, in the order of the input, with the command \<open>git\<close> and the arguments
  \<open>diff --quiet baseRef HEAD --\<close> followed by one pathspec for each source glob, which is
  \<open>:(glob)\<close> followed by the glob when the project is \<open>.\<close>, and \<open>:(glob)\<close> followed by
  the project, a slash and the glob otherwise. So a provider that records its calls has
  received exactly this list of calls, whatever it answered; and the \<open>Exec\<close> events say
  the same.
\<close>

theorem filterByChangedSources_pathspecs:
  "world (filterByChangedSources (recorder script) tasks baseRef []) =
     map (\<lambda>t. (''git'',
            [''diff'', ''--quiet'', baseRef, ''HEAD'', ''--''] @
            map (\<lambda>glob. '':(glob)'' @ (if project t = ''.'' then glob else project t @ ''/'' @ glob))
              (sources t),
            \<lparr>ignoreReturnCode = True, silent = True\<rparr>))
       (filter (\<lambda>t. sources t \<noteq> []) tasks)
   \<and> world (filterByChangedSources exec tasks baseRef w) =
     foldl (\<lambda>w t. snd (exec w ''git''
              ([''diff'', ''--quiet'', baseRef, ''HEAD'', ''--''] @
               map (\<lambda>glob. '':(glob)'' @ (if project t = ''.'' then glob else project t @ ''/'' @ glob))
                 (sources t))
              \<lparr>ignoreReturnCode = True, silent = True\<rparr>)) w
       (filter (\<lambda>t. sources t \<noteq> []) tasks)
   \<and> filter isExec (events (filterByChangedSources exec tasks baseRef w)) =
     map (\<lambda>t. Exec ''git''
          ([''diff'', ''--quiet'', baseRef, ''HEAD'', ''--''] @
           map (\<lambda>glob. '':(glob)'' @ (if project t = ''.'' then glob else project t @ ''/'' @ glob))
             (sources t))
          \<lparr>ignoreReturnCode = True, silent = True\<rparr>)
     (filter (\<lambda>t. sources t \<noteq> []) tasks)"
proof (intro conjI)
  show "world (filterByChangedSources (recorder script) tasks baseRef []) =
     map (\<lambda>t. (''git'',
            [''diff'', ''--quiet'', baseRef, ''HEAD'', ''--''] @
            map (\<lambda>glob. '':(glob)'' @ (if project t = ''.'' then glob else project t @ ''/'' @ glob))
              (sources t),
            \<lparr>ignoreReturnCode = True, silent = True\<rparr>))
       (filter (\<lambda>t. sources t \<noteq> []) tasks)"
    using recorder_calls [of script tasks baseRef "[]"]
    by (simp only: diffArgs_expand diffOptions_def append_Nil)
next
  show "world (filterByChangedSources exec tasks baseRef w) =
     foldl (\<lambda>w t. snd (exec w ''git''
              ([''diff'', ''--quiet'', baseRef, ''HEAD'', ''--''] @
               map (\<lambda>glob. '':(glob)'' @ (if project t = ''.'' then glob else project t @ ''/'' @ glob))
                 (sources t))
              \<lparr>ignoreReturnCode = True, silent = True\<rparr>)) w
       (filter (\<lambda>t. sources t \<noteq> []) tasks)"
    using world_calls [of exec tasks baseRef w]
    by (simp only: diffArgs_expand diffOptions_def)
next
  show "filter isExec (events (filterByChangedSources exec tasks baseRef w)) =
     map (\<lambda>t. Exec ''git''
          ([''diff'', ''--quiet'', baseRef, ''HEAD'', ''--''] @
           map (\<lambda>glob. '':(glob)'' @ (if project t = ''.'' then glob else project t @ ''/'' @ glob))
             (sources t))
          \<lparr>ignoreReturnCode = True, silent = True\<rparr>)
     (filter (\<lambda>t. sources t \<noteq> []) tasks)"
    using exec_events [of exec tasks baseRef w]
    by (simp only: diffArgs_expand diffOptions_def)
qed

theorem filterByChangedSources_pathspecs_witness:
  "world (filterByChangedSources (recorder [ExitCode 1, ExitCode 0])
     [\<lparr>project = ''services/api'', task = ''//services/api:ci:build'', localName = ''ci:build'',
       sources = [''src/**'', ''pyproject.toml'']\<rparr>,
      \<lparr>project = ''.'', task = ''ci:test'', localName = ''ci:test'', sources = []\<rparr>,
      \<lparr>project = ''.'', task = ''ci:build'', localName = ''ci:build'', sources = [''src/**'']\<rparr>]
     ''abc123'' []) =
   [(''git'', [''diff'', ''--quiet'', ''abc123'', ''HEAD'', ''--'',
               '':(glob)services/api/src/**'', '':(glob)services/api/pyproject.toml''],
     \<lparr>ignoreReturnCode = True, silent = True\<rparr>),
    (''git'', [''diff'', ''--quiet'', ''abc123'', ''HEAD'', ''--'', '':(glob)src/**''],
     \<lparr>ignoreReturnCode = True, silent = True\<rparr>)]"
  using filterByChangedSources_pathspecs
    [of "[ExitCode 1, ExitCode 0]"
        "[\<lparr>project = ''services/api'', task = ''//services/api:ci:build'', localName = ''ci:build'',
           sources = [''src/**'', ''pyproject.toml'']\<rparr>,
          \<lparr>project = ''.'', task = ''ci:test'', localName = ''ci:test'', sources = []\<rparr>,
          \<lparr>project = ''.'', task = ''ci:build'', localName = ''ci:build'', sources = [''src/**'']\<rparr>]"
        "''abc123''" "recorder [ExitCode 1, ExitCode 0]" "[]"]
  by simp

text \<open>
  C3, as it is stated, fails: the pathspec of the glob \<open>src/**\<close> in the project
  \<open>services/api\<close> is \<open>:(glob)services/api/src/**\<close> and not \<open>services/api/src/**\<close>, and
  in the project \<open>.\<close> it is \<open>:(glob)src/**\<close> and not the glob unmodified.
\<close>

theorem filterByChangedSources_pathspecs_counterexample:
  "pathspecs \<lparr>project = ''services/api'', task = ''//services/api:ci:build'',
              localName = ''ci:build'', sources = [''src/**'']\<rparr> = ['':(glob)services/api/src/**'']
   \<and> pathspecs \<lparr>project = ''services/api'', task = ''//services/api:ci:build'',
              localName = ''ci:build'', sources = [''src/**'']\<rparr> \<noteq> [''services/api/src/**'']
   \<and> pathspecs \<lparr>project = ''.'', task = ''ci:build'', localName = ''ci:build'',
              sources = [''src/**'']\<rparr> \<noteq> [''src/**'']
   \<and> Exec ''git'' [''diff'', ''--quiet'', ''abc123'', ''HEAD'', ''--'', ''services/api/src/**'']
       diffOptions
     \<notin> set (events (filterByChangedSources scripted
        [\<lparr>project = ''services/api'', task = ''//services/api:ci:build'', localName = ''ci:build'',
          sources = [''src/**'']\<rparr>] ''abc123'' [ExitCode 1]))"
  by (simp add: pathspecs_def filterByChangedSources_def filterStep_def diffArgs_def
      diffOptions_def Let_def)

text \<open>
  C7. A provider that records its calls has received, whatever it answered, as many calls
  as the input has tasks with sources; for any provider, the world at the end is the one
  reached by calling the provider once for each task with sources, in order, and for no
  other task. The tasks without sources that are kept are exactly those of the input, in
  order; and running one more task, without sources, after any input only appends it to
  the result and appends one \<open>Info\<close> event: no call is made and the world is as it was.
\<close>

theorem filterByChangedSources_queries:
  "length (world (filterByChangedSources (recorder script) tasks baseRef [])) =
     length (filter (\<lambda>t. sources t \<noteq> []) tasks)
   \<and> world (filterByChangedSources exec tasks baseRef w) =
     foldl (\<lambda>w t. snd (exec w ''git'' (diffArgs baseRef t) diffOptions)) w
       (filter (\<lambda>t. sources t \<noteq> []) tasks)
   \<and> length (filter isExec (events (filterByChangedSources exec tasks baseRef w))) =
     length (filter (\<lambda>t. sources t \<noteq> []) tasks)
   \<and> filter (\<lambda>t. sources t = []) (result (filterByChangedSources exec tasks baseRef w)) =
     filter (\<lambda>t. sources t = []) tasks
   \<and> (sources t = [] \<longrightarrow>
        filterByChangedSources exec (pre @ [t]) baseRef w =
          (filterByChangedSources exec pre baseRef w)
            \<lparr>result := result (filterByChangedSources exec pre baseRef w) @ [t],
             events := events (filterByChangedSources exec pre baseRef w) @
               [Info (''  '' @ task t @ '': no sources, included'')]\<rparr>)"
proof (intro conjI)
  show "length (world (filterByChangedSources (recorder script) tasks baseRef [])) =
     length (filter (\<lambda>t. sources t \<noteq> []) tasks)"
    by (simp add: recorder_calls)
next
  show "world (filterByChangedSources exec tasks baseRef w) =
     foldl (\<lambda>w t. snd (exec w ''git'' (diffArgs baseRef t) diffOptions)) w
       (filter (\<lambda>t. sources t \<noteq> []) tasks)"
    by (rule world_calls)
next
  show "length (filter isExec (events (filterByChangedSources exec tasks baseRef w))) =
     length (filter (\<lambda>t. sources t \<noteq> []) tasks)"
    by (simp add: exec_events)
next
  show "filter (\<lambda>t. sources t = []) (result (filterByChangedSources exec tasks baseRef w)) =
     filter (\<lambda>t. sources t = []) tasks"
    by (rule kept_no_sources)
next
  show "sources t = [] \<longrightarrow>
        filterByChangedSources exec (pre @ [t]) baseRef w =
          (filterByChangedSources exec pre baseRef w)
            \<lparr>result := result (filterByChangedSources exec pre baseRef w) @ [t],
             events := events (filterByChangedSources exec pre baseRef w) @
               [Info (''  '' @ task t @ '': no sources, included'')]\<rparr>"
    by (simp add: filter_snoc filterStep_no_sources)
qed

theorem filterByChangedSources_queries_witness:
  "sources \<lparr>project = ''.'', task = ''ci:lint'', localName = ''ci:lint'', sources = []\<rparr> = []
   \<and> filterByChangedSources (recorder [ExitCode 0, ExitCode 1])
       [\<lparr>project = ''.'', task = ''ci:build'', localName = ''ci:build'', sources = [''src/**'']\<rparr>,
        \<lparr>project = ''.'', task = ''ci:lint'', localName = ''ci:lint'', sources = []\<rparr>]
       ''abc123'' [] =
     \<lparr>result = [\<lparr>project = ''.'', task = ''ci:lint'', localName = ''ci:lint'', sources = []\<rparr>],
      events = [Info ''Filtering tasks by changes since abc123...'',
                Exec ''git'' [''diff'', ''--quiet'', ''abc123'', ''HEAD'', ''--'', '':(glob)src/**'']
                  \<lparr>ignoreReturnCode = True, silent = True\<rparr>,
                Info ''  ci:build: unchanged, skipped'',
                Info ''  ci:lint: no sources, included''],
      world = [(''git'', [''diff'', ''--quiet'', ''abc123'', ''HEAD'', ''--'', '':(glob)src/**''],
                \<lparr>ignoreReturnCode = True, silent = True\<rparr>)]\<rparr>
   \<and> length (world (filterByChangedSources (recorder [ExitCode 0, ExitCode 1])
       [\<lparr>project = ''.'', task = ''ci:build'', localName = ''ci:build'', sources = [''src/**'']\<rparr>,
        \<lparr>project = ''.'', task = ''ci:lint'', localName = ''ci:lint'', sources = []\<rparr>]
       ''abc123'' [])) = 1"
  using filterByChangedSources_queries
    [of "[ExitCode 0, ExitCode 1]"
        "[\<lparr>project = ''.'', task = ''ci:build'', localName = ''ci:build'', sources = [''src/**'']\<rparr>,
          \<lparr>project = ''.'', task = ''ci:lint'', localName = ''ci:lint'', sources = []\<rparr>]"
        "''abc123''" "recorder [ExitCode 0, ExitCode 1]" "[]"
        "\<lparr>project = ''.'', task = ''ci:lint'', localName = ''ci:lint'', sources = []\<rparr>"
        "[\<lparr>project = ''.'', task = ''ci:build'', localName = ''ci:build'', sources = [''src/**'']\<rparr>]"]
  by (simp add: filterByChangedSources_def filterStep_def diffArgs_def pathspecs_def
      diffOptions_def Let_def recorder_def)

end
